theory Spec2Isabelle
  imports Main "HOL-Library.Word" "HOL-Library.Sublist"
begin

section \<open>The view-model of \<^verbatim>\<open>src/App.tsx\<close>\<close>

subsection \<open>JavaScript strings\<close>

text \<open>
  A JavaScript string is a sequence of UTF-16 code units, so a string is a list of
  16-bit words. The string literals of the source are ASCII; \<open>lit\<close> embeds an
  Isabelle literal code unit by code unit.
\<close>

type_synonym jsstring = "16 word list"

definition unit_of :: "char \<Rightarrow> 16 word" where
  "unit_of c = of_char c"

definition lit :: "string \<Rightarrow> jsstring" where
  "lit cs = map unit_of cs"

text \<open>
  The code units that \<^verbatim>\<open>\s\<close> matches and that \<^verbatim>\<open>String.prototype.trim\<close>
  strips: WhiteSpace and LineTerminator of ECMAScript (TAB, LF, VT, FF, CR, SP, NBSP,
  U+1680, U+2000 to U+200A, U+2028, U+2029, U+202F, U+205F, U+3000, U+FEFF).
\<close>

definition is_ws :: "16 word \<Rightarrow> bool" where
  "is_ws c \<longleftrightarrow>
     c = 0x9 \<or> c = 0xA \<or> c = 0xB \<or> c = 0xC \<or> c = 0xD \<or> c = 0x20 \<or> c = 0xA0 \<or>
     c = 0x1680 \<or> (0x2000 \<le> c \<and> c \<le> 0x200A) \<or> c = 0x2028 \<or> c = 0x2029 \<or>
     c = 0x202F \<or> c = 0x205F \<or> c = 0x3000 \<or> c = 0xFEFF"

text \<open>\<^verbatim>\<open>s.trim()\<close>: strip the white space at both ends.\<close>

definition trim :: "jsstring \<Rightarrow> jsstring" where
  "trim s = rev (dropWhile is_ws (rev (dropWhile is_ws s)))"

text \<open>
  \<^verbatim>\<open>s.replace(/\s\s+/g, ' ')\<close>: scanning from the left, a white-space unit followed
  by another one starts a match, which extends over the whole run (\<^verbatim>\<open>+\<close> is greedy)
  and is replaced by one space; any other unit, a lone white-space unit included, is
  copied.
\<close>

function replace_ws_runs :: "jsstring \<Rightarrow> jsstring" where
  "replace_ws_runs [] = []"
| "replace_ws_runs [c] = [c]"
| "replace_ws_runs (c # d # cs) =
     (if is_ws c \<and> is_ws d then 0x20 # replace_ws_runs (dropWhile is_ws cs)
      else c # replace_ws_runs (d # cs))"
  by pat_completeness auto
termination
  by (relation "measure length") (auto simp: length_dropWhile_le less_Suc_eq_le le_SucI)

subsection \<open>State\<close>

text \<open>
  \<^verbatim>\<open>type ImageStatus = 'pending' | 'done' | 'error'\<close>, the interface
  \<^verbatim>\<open>GeneratedImage\<close> with its two optional fields, the union type of
  \<^verbatim>\<open>appState\<close>, and the \<^verbatim>\<open>useState\<close> cells of \<^verbatim>\<open>App\<close> that the handlers
  read and write.
\<close>

datatype ImageStatus = Pending | Done | Error

record GeneratedImage =
  status :: ImageStatus
  url :: "jsstring option"
  error :: "jsstring option"

datatype AppState = Idle | PhotosSelected | Generating | ResultsShown

record app =
  uploadedImages :: "jsstring list"
  userPrompt :: jsstring
  generatedImage :: "GeneratedImage option"
  isLoading :: bool
  appState :: AppState

definition initial :: app where
  "initial = \<lparr>uploadedImages = [], userPrompt = [], generatedImage = None,
               isLoading = False, appState = Idle\<rparr>"

subsection \<open>Promises and effects\<close>

text \<open>
  How a promise settles. A rejection reason is any JavaScript value: either an
  instance of \<^verbatim>\<open>Error\<close> with its \<^verbatim>\<open>message\<close>, or something else (the
  \<^verbatim>\<open>ProgressEvent\<close> of a failed \<^verbatim>\<open>FileReader\<close>, a thrown string, ...).
\<close>

datatype thrown = ErrorInstance jsstring | OtherValue

datatype 'a settled = Fulfilled 'a | Rejected thrown

text \<open>
  \<^verbatim>\<open>Promise.all\<close>: fulfilled with all the values in the order of the promises
  when every promise is fulfilled, rejected otherwise. (Which reason it is rejected
  with depends on which promise rejects first in time; the handler only logs it. The
  model takes the first in the list.)
\<close>

fun promise_all :: "'a settled list \<Rightarrow> 'a list settled" where
  "promise_all [] = Fulfilled []"
| "promise_all (Rejected e # ps) = Rejected e"
| "promise_all (Fulfilled v # ps) =
     (case promise_all ps of Fulfilled vs \<Rightarrow> Fulfilled (v # vs) | Rejected e \<Rightarrow> Rejected e)"

text \<open>What a handler does besides writing the state cells.\<close>

datatype effect =
    ClearInputValue
  | ConsoleError
  | Alert jsstring
  | GenerateImage "jsstring list" jsstring

subsection \<open>\<^verbatim>\<open>handleImageUpload\<close>\<close>

text \<open>
  The two callbacks behind \<^verbatim>\<open>Promise.all(imagePromises)\<close>. The state they see is
  the one current when the promise settles: \<^verbatim>\<open>setUploadedImages\<close> is given an
  updater function of the previous list, the other two setters a constant.
\<close>

definition upload_alert :: jsstring where
  "upload_alert = lit ''Sorry, there was an error processing your photos. Please try again.''"

fun upload_settled :: "jsstring list settled \<Rightarrow> app \<Rightarrow> app \<times> effect list" where
  "upload_settled (Fulfilled base64Images) s =
     (s\<lparr>uploadedImages := uploadedImages s @ base64Images,
        appState := PhotosSelected,
        generatedImage := None\<rparr>, [])"
| "upload_settled (Rejected e) s = (s, [ConsoleError, Alert upload_alert])"

text \<open>
  The handler, run to completion with no other event in between. The argument is
  \<^verbatim>\<open>e.target.files\<close> (\<open>None\<close> for \<^verbatim>\<open>null\<close>), each file given as the way its
  \<^verbatim>\<open>FileReader\<close> promise settles: \<^verbatim>\<open>onerror\<close> fires before \<^verbatim>\<open>onloadend\<close>, so
  a failed read rejects, and a successful one fulfils with the data URL.
\<close>

definition handleImageUpload :: "jsstring settled list option \<Rightarrow> app \<Rightarrow> app \<times> effect list" where
  "handleImageUpload files s =
     (case files of
        None \<Rightarrow> (s, [])
      | Some fs \<Rightarrow>
          if length fs > 0 then
            (let (s', effs) = upload_settled (promise_all fs) s
             in (s', ClearInputValue # effs))
          else (s, []))"

subsection \<open>\<^verbatim>\<open>handleRemoveImage\<close>\<close>

text \<open>\<^verbatim>\<open>xs.filter((x, index) => p(x, index))\<close>, the index counted from \<open>k\<close>.\<close>

fun filter_from :: "nat \<Rightarrow> ('a \<Rightarrow> nat \<Rightarrow> bool) \<Rightarrow> 'a list \<Rightarrow> 'a list" where
  "filter_from k p [] = []"
| "filter_from k p (x # xs) =
     (if p x k then x # filter_from (Suc k) p xs else filter_from (Suc k) p xs)"

definition filter_indexed :: "('a \<Rightarrow> nat \<Rightarrow> bool) \<Rightarrow> 'a list \<Rightarrow> 'a list" where
  "filter_indexed p xs = filter_from 0 p xs"

text \<open>
  \<^verbatim>\<open>indexToRemove\<close> is a \<^verbatim>\<open>number\<close>; the model takes any integer, negative ones
  included.
\<close>

definition handleRemoveImage :: "int \<Rightarrow> app \<Rightarrow> app" where
  "handleRemoveImage indexToRemove s =
     (let newImages = filter_indexed (\<lambda>_ index. int index \<noteq> indexToRemove) (uploadedImages s)
      in if length newImages = 0
         then s\<lparr>appState := Idle, uploadedImages := newImages\<rparr>
         else s\<lparr>uploadedImages := newImages\<rparr>)"

subsection \<open>\<^verbatim>\<open>createFinalPrompt\<close>\<close>

text \<open>
  The three template parts and their concatenation
  \<^verbatim>\<open>`${baseInstruction} ${userScene} ${rules.replace(/\s\s+/g, ' ')}`.trim()\<close>.
  The function reads the prompt cell; \<^verbatim>\<open>userPrompt.trim()\<close> as a condition is true
  when the trimmed string is not empty. \<open>rules\<close> is the template literal with its line
  breaks and its indentation.
\<close>

definition baseInstruction :: jsstring where
  "baseInstruction = lit ''**Primary Objective:** Recreate the exact person/people from the uploaded photos in a new, photorealistic image.''"

definition scene_label :: jsstring where
  "scene_label = lit ''**Scene Description:** ''"

definition fallback_scene :: jsstring where
  "fallback_scene = lit ''**Scene Description:** Create an interesting and creative photorealistic scene for the person/people in the photo.''"

definition userScene :: "app \<Rightarrow> jsstring" where
  "userScene s =
     (if trim (userPrompt s) \<noteq> []
      then scene_label @ trim (userPrompt s) @ lit ''.''
      else fallback_scene)"

definition rules :: jsstring where
  "rules = lit ''\<newline>            **Critical Rules (Non-negotiable):**\<newline>            1.  **Preserve Identity:** You MUST keep the faces of the people identical to the source photos. Do not alter their facial structure, features, or unique likeness. The final image must be of the *same people*.\<newline>            2.  **Photorealistic Output:** The final image must look like a real photograph, not a drawing or digital creation.\<newline>            3.  **Seamless Integration:** The people from the photos must be seamlessly integrated into the described scene with authentic lighting and shadows.\<newline>            4.  **Single Image:** Produce a single, cohesive final image.\<newline>        ''"

definition createFinalPrompt :: "app \<Rightarrow> jsstring" where
  "createFinalPrompt s =
     trim (baseInstruction @ lit '' '' @ userScene s @ lit '' '' @ replace_ws_runs rules)"

text \<open>
  For the statements below: the text of \<open>rules\<close> on one line, with single spaces, up
  to its last full stop; the sentence of the fallback clause, without the label and
  the full stop; and the strings in which a white-space unit is followed by another.
\<close>

definition rules_text :: string where
  "rules_text = ''**Critical Rules (Non-negotiable):** 1. **Preserve Identity:** You MUST keep the faces of the people identical to the source photos. Do not alter their facial structure, features, or unique likeness. The final image must be of the *same people*. 2. **Photorealistic Output:** The final image must look like a real photograph, not a drawing or digital creation. 3. **Seamless Integration:** The people from the photos must be seamlessly integrated into the described scene with authentic lighting and shadows. 4. **Single Image:** Produce a single, cohesive final image''"

definition fallback_text :: string where
  "fallback_text = ''Create an interesting and creative photorealistic scene for the person/people in the photo''"

fun has_ws_run :: "jsstring \<Rightarrow> bool" where
  "has_ws_run (c # d # cs) \<longleftrightarrow> (is_ws c \<and> is_ws d) \<or> has_ws_run (d # cs)"
| "has_ws_run cs \<longleftrightarrow> False"

subsection \<open>\<^verbatim>\<open>handleGenerateClick\<close>\<close>

text \<open>
  The handler up to its \<^verbatim>\<open>await\<close>: the guard, the three setters, and the call of
  the collaborator \<^verbatim>\<open>generateImage\<close> with the images and the prompt of the state
  the click saw.
\<close>

definition pending_image :: GeneratedImage where
  "pending_image = \<lparr>status = Pending, url = None, error = None\<rparr>"

definition handleGenerateClick_begin :: "app \<Rightarrow> app \<times> effect list" where
  "handleGenerateClick_begin s =
     (if length (uploadedImages s) = 0 then (s, [])
      else (s\<lparr>isLoading := True, appState := Generating, generatedImage := Some pending_image\<rparr>,
            [GenerateImage (uploadedImages s) (createFinalPrompt s)]))"

text \<open>
  The handler after its \<^verbatim>\<open>await\<close>, on the state current when the collaborator's
  promise settles: the rest of the \<^verbatim>\<open>try\<close> block or the \<^verbatim>\<open>catch\<close> block, then
  the two setters after them.
\<close>

definition unknown_error :: jsstring where
  "unknown_error = lit ''An unknown error occurred.''"

fun errorMessage :: "thrown \<Rightarrow> jsstring" where
  "errorMessage (ErrorInstance message) = message"
| "errorMessage OtherValue = unknown_error"

fun handleGenerateClick_resume :: "jsstring settled \<Rightarrow> app \<Rightarrow> app \<times> effect list" where
  "handleGenerateClick_resume (Fulfilled resultUrl) s =
     (s\<lparr>generatedImage := Some \<lparr>status = Done, url = Some resultUrl, error = None\<rparr>,
        isLoading := False, appState := ResultsShown\<rparr>, [])"
| "handleGenerateClick_resume (Rejected err) s =
     (s\<lparr>generatedImage := Some \<lparr>status = Error, url = None, error = Some (errorMessage err)\<rparr>,
        isLoading := False, appState := ResultsShown\<rparr>, [ConsoleError])"

text \<open>The whole handler when nothing else happens while the call is in flight.\<close>

definition handleGenerateClick :: "jsstring settled \<Rightarrow> app \<Rightarrow> app \<times> effect list" where
  "handleGenerateClick outcome s =
     (if length (uploadedImages s) = 0 then (s, [])
      else (let (s1, effs1) = handleGenerateClick_begin s;
                (s2, effs2) = handleGenerateClick_resume outcome s1
            in (s2, effs1 @ effs2)))"

subsection \<open>\<^verbatim>\<open>handleReset\<close>\<close>

definition handleReset :: "app \<Rightarrow> app" where
  "handleReset s = s\<lparr>uploadedImages := [], generatedImage := None, appState := Idle, userPrompt := []\<rparr>"

subsection \<open>The prompt field\<close>

text \<open>\<^verbatim>\<open>onChange={(e) => setUserPrompt(e.target.value)}\<close> of the text area.\<close>

definition setUserPrompt :: "jsstring \<Rightarrow> app \<Rightarrow> app" where
  "setUserPrompt v s = s\<lparr>userPrompt := v\<rparr>"

subsection \<open>Events of the running component\<close>

text \<open>
  The events that reach the handlers, with the two asynchronous operations split at
  their suspension point: a file input's change event starts the decoding of a batch
  and the batch settles later; a click on a generate button starts a call of the
  collaborator and the call settles later. Other events may come in between, and the
  batches being decoded settle in any order: \<open>UploadSettles k\<close> is the settling of
  the batch at position \<open>k\<close> of those still pending. \<open>CardShake\<close> is the card of
  the result calling its \<^verbatim>\<open>onShake\<close> property, which is \<^verbatim>\<open>handleGenerateClick\<close>.
\<close>

datatype event =
    UploadChange "jsstring settled list option"
  | UploadSettles nat
  | RemoveClick int
  | PromptChange jsstring
  | GenerateClick
  | CardShake
  | GenerateSettles "jsstring settled"
  | ResetClick

text \<open>
  The state cells, the batches being decoded (each with the way its
  \<^verbatim>\<open>Promise.all\<close> will settle) and the number of collaborator calls in flight.
\<close>

record system =
  cells :: app
  decoding :: "jsstring list settled list"
  calls :: nat

definition boot :: system where
  "boot = \<lparr>cells = initial, decoding = [], calls = 0\<rparr>"

text \<open>
  Which controls the JSX of \<^verbatim>\<open>App\<close> renders in a state: the two file inputs (idle
  view and photos-selected view), the remove buttons of the gallery, the text area and
  the two buttons of the photos-selected view, the two buttons of the results view
  (the first with \<^verbatim>\<open>disabled={isLoading}\<close>), and the card, rendered in the
  generating and the results view when there is a result. When the card calls
  \<^verbatim>\<open>onShake\<close> is decided in \<^verbatim>\<open>PolaroidCard\<close>; here it may whenever the card is
  rendered. A settling promise needs no control.
\<close>

fun offered :: "event \<Rightarrow> app \<Rightarrow> bool" where
  "offered (UploadChange files) s \<longleftrightarrow>
     appState s = Idle \<or> (appState s = PhotosSelected \<and> length (uploadedImages s) > 0)"
| "offered (RemoveClick i) s \<longleftrightarrow>
     appState s = PhotosSelected \<and> length (uploadedImages s) > 0 \<and>
     0 \<le> i \<and> i < int (length (uploadedImages s))"
| "offered (PromptChange v) s \<longleftrightarrow>
     appState s = PhotosSelected \<and> length (uploadedImages s) > 0"
| "offered GenerateClick s \<longleftrightarrow>
     (appState s = PhotosSelected \<and> length (uploadedImages s) > 0) \<or>
     (appState s = ResultsShown \<and> length (uploadedImages s) > 0 \<and> \<not> isLoading s)"
| "offered CardShake s \<longleftrightarrow>
     (appState s = Generating \<or> appState s = ResultsShown) \<and> length (uploadedImages s) > 0 \<and>
     generatedImage s \<noteq> None"
| "offered ResetClick s \<longleftrightarrow>
     (appState s = PhotosSelected \<and> length (uploadedImages s) > 0) \<or>
     (appState s = ResultsShown \<and> length (uploadedImages s) > 0)"
| "offered (UploadSettles k) s \<longleftrightarrow> True"
| "offered (GenerateSettles outcome) s \<longleftrightarrow> True"

text \<open>
  One event. \<open>None\<close> when the event cannot happen: its control is not rendered, or
  nothing is pending that could settle.
\<close>

fun fire :: "event \<Rightarrow> system \<Rightarrow> system option" where
  "fire (UploadChange files) y =
     (case files of
        None \<Rightarrow> Some y
      | Some fs \<Rightarrow>
          if length fs > 0 then Some (y\<lparr>decoding := decoding y @ [promise_all fs]\<rparr>)
          else Some y)"
| "fire (UploadSettles k) y =
     (if k < length (decoding y)
      then Some (y\<lparr>cells := fst (upload_settled (decoding y ! k) (cells y)),
                    decoding := take k (decoding y) @ drop (Suc k) (decoding y)\<rparr>)
      else None)"
| "fire (RemoveClick i) y = Some (y\<lparr>cells := handleRemoveImage i (cells y)\<rparr>)"
| "fire (PromptChange v) y = Some (y\<lparr>cells := setUserPrompt v (cells y)\<rparr>)"
| "fire GenerateClick y =
     (let (s', effs) = handleGenerateClick_begin (cells y)
      in Some (y\<lparr>cells := s', calls := calls y + length effs\<rparr>))"
| "fire CardShake y =
     (let (s', effs) = handleGenerateClick_begin (cells y)
      in Some (y\<lparr>cells := s', calls := calls y + length effs\<rparr>))"
| "fire (GenerateSettles outcome) y =
     (if calls y = 0 then None
      else Some (y\<lparr>cells := fst (handleGenerateClick_resume outcome (cells y)),
                    calls := calls y - 1\<rparr>))"
| "fire ResetClick y = Some (y\<lparr>cells := handleReset (cells y)\<rparr>)"

definition step :: "event \<Rightarrow> system \<Rightarrow> system option" where
  "step e y = (if offered e (cells y) then fire e y else None)"

fun run :: "event list \<Rightarrow> system \<Rightarrow> system option" where
  "run [] y = Some y"
| "run (e # es) y = (case step e y of None \<Rightarrow> None | Some y' \<Rightarrow> run es y')"

text \<open>The invariant of the data model: no generating or results view without an image.\<close>

definition view_has_images :: "app \<Rightarrow> bool" where
  "view_has_images s \<longleftrightarrow>
     \<not> ((appState s = Generating \<or> appState s = ResultsShown) \<and> uploadedImages s = [])"

section \<open>Removing an image\<close>

lemma filter_from_remove:
  "filter_from k (\<lambda>_ index. int index \<noteq> i) xs =
     (if int k \<le> i \<and> i < int k + int (length xs)
      then take (nat (i - int k)) xs @ drop (Suc (nat (i - int k))) xs
      else xs)"
proof (induction xs arbitrary: k)
  case Nil
  show ?case by simp
next
  case (Cons x xs)
  show ?case
  proof (cases "int k = i")
    case True
    then show ?thesis by (simp add: Cons.IH)
  next
    case False
    then have "nat (i - int k) = Suc (nat (i - int (Suc k)))" if "int k \<le> i"
      using that by simp
    with False show ?thesis by (auto simp: Cons.IH)
  qed
qed

lemma filter_indexed_remove:
  "filter_indexed (\<lambda>_ index. int index \<noteq> i) xs =
     (if 0 \<le> i \<and> i < int (length xs) then take (nat i) xs @ drop (Suc (nat i)) xs else xs)"
  by (simp add: filter_indexed_def filter_from_remove)


text \<open>
  Claim C4. For a list of length \<open>L > 0\<close> and an index \<open>0 \<le> i < L\<close>,
  \<^verbatim>\<open>handleRemoveImage\<close> leaves the \<open>L - 1\<close> other images in their order (the ones
  before \<open>i\<close>, then the ones after it), and when that list is empty, which happens
  exactly for \<open>L = 1\<close>, the view goes to idle.
\<close>

theorem remove_in_range:
  assumes "0 \<le> i" and "i < int (length (uploadedImages s))"
  shows "uploadedImages (handleRemoveImage i s) =
           take (nat i) (uploadedImages s) @ drop (Suc (nat i)) (uploadedImages s)
       \<and> length (uploadedImages (handleRemoveImage i s)) = length (uploadedImages s) - 1
       \<and> (uploadedImages (handleRemoveImage i s) = [] \<longleftrightarrow> length (uploadedImages s) = 1)
       \<and> (uploadedImages (handleRemoveImage i s) = [] \<longrightarrow> appState (handleRemoveImage i s) = Idle)"
proof -
  let ?xs = "uploadedImages s"
  have new: "filter_indexed (\<lambda>_ index. int index \<noteq> i) ?xs = take (nat i) ?xs @ drop (Suc (nat i)) ?xs"
    using assms by (simp add: filter_indexed_remove)
  have len: "length (take (nat i) ?xs @ drop (Suc (nat i)) ?xs) = length ?xs - 1"
    using assms by auto
  have imgs: "uploadedImages (handleRemoveImage i s) = take (nat i) ?xs @ drop (Suc (nat i)) ?xs"
    by (simp add: handleRemoveImage_def Let_def new)
  have pos: "0 < length ?xs"
    using assms by auto
  have empty: "take (nat i) ?xs @ drop (Suc (nat i)) ?xs = [] \<longleftrightarrow> length ?xs = 1"
  proof -
    have "take (nat i) ?xs @ drop (Suc (nat i)) ?xs = []
            \<longleftrightarrow> length (take (nat i) ?xs @ drop (Suc (nat i)) ?xs) = 0"
      by (simp only: length_0_conv)
    also have "\<dots> \<longleftrightarrow> length ?xs = 1"
      unfolding len using pos by arith
    finally show ?thesis .
  qed
  have idle: "take (nat i) ?xs @ drop (Suc (nat i)) ?xs = [] \<longrightarrow> appState (handleRemoveImage i s) = Idle"
    by (simp add: handleRemoveImage_def Let_def new)
  show ?thesis
    unfolding imgs using len empty idle by blast
qed

theorem remove_in_range_witness:
  "(0::int) \<le> 1 \<and> (1::int) < int (length [lit ''a'', lit ''b'', lit ''c''])
   \<and> uploadedImages (handleRemoveImage 1 (initial\<lparr>uploadedImages := [lit ''a'', lit ''b'', lit ''c''],
                                                  appState := PhotosSelected\<rparr>))
       = [lit ''a'', lit ''c'']
   \<and> uploadedImages (handleRemoveImage 0 (initial\<lparr>uploadedImages := [lit ''a''],
                                                  appState := PhotosSelected\<rparr>)) = []
   \<and> appState (handleRemoveImage 0 (initial\<lparr>uploadedImages := [lit ''a''],
                                            appState := PhotosSelected\<rparr>)) = Idle"
  using remove_in_range [of 1 "initial\<lparr>uploadedImages := [lit ''a'', lit ''b'', lit ''c''],
                                         appState := PhotosSelected\<rparr>"]
        remove_in_range [of 0 "initial\<lparr>uploadedImages := [lit ''a''], appState := PhotosSelected\<rparr>"]
  by simp

text \<open>
  Claim C10. For an index outside the list (\<open>i < 0\<close> or \<open>i \<ge> L\<close>),
  \<^verbatim>\<open>handleRemoveImage\<close> returns normally with the same list, and when the list is not
  empty the whole state, the view included, is the one before.
\<close>

theorem remove_out_of_range:
  assumes "i < 0 \<or> int (length (uploadedImages s)) \<le> i"
  shows "uploadedImages (handleRemoveImage i s) = uploadedImages s
       \<and> (length (uploadedImages s) > 0 \<longrightarrow> handleRemoveImage i s = s)"
proof -
  have "filter_indexed (\<lambda>_ index. int index \<noteq> i) (uploadedImages s) = uploadedImages s"
    using assms by (auto simp: filter_indexed_remove)
  then show ?thesis
    by (simp add: handleRemoveImage_def Let_def)
qed

theorem remove_out_of_range_witness:
  "((-1::int) < 0 \<or> int (length [lit ''a'', lit ''b'']) \<le> -1)
   \<and> ((5::int) < 0 \<or> int (length [lit ''a'', lit ''b'']) \<le> 5)
   \<and> handleRemoveImage (-1) (initial\<lparr>uploadedImages := [lit ''a'', lit ''b''], appState := PhotosSelected\<rparr>)
       = initial\<lparr>uploadedImages := [lit ''a'', lit ''b''], appState := PhotosSelected\<rparr>
   \<and> handleRemoveImage 5 (initial\<lparr>uploadedImages := [lit ''a'', lit ''b''], appState := PhotosSelected\<rparr>)
       = initial\<lparr>uploadedImages := [lit ''a'', lit ''b''], appState := PhotosSelected\<rparr>"
  using remove_out_of_range [of "-1" "initial\<lparr>uploadedImages := [lit ''a'', lit ''b''], appState := PhotosSelected\<rparr>"]
        remove_out_of_range [of 5 "initial\<lparr>uploadedImages := [lit ''a'', lit ''b''], appState := PhotosSelected\<rparr>"]
  by simp

section \<open>Generating\<close>

text \<open>
  Claim C6. With no image, \<^verbatim>\<open>handleGenerateClick\<close> returns at its guard: the state
  is the one before, in every cell, and there is no effect, so the collaborator is not
  called, whatever it would have answered.
\<close>

theorem generate_without_images:
  assumes "uploadedImages s = []"
  shows "handleGenerateClick_begin s = (s, []) \<and> handleGenerateClick outcome s = (s, [])"
  using assms by (simp add: handleGenerateClick_begin_def handleGenerateClick_def)

theorem generate_without_images_witness:
  "uploadedImages initial = []
   \<and> handleGenerateClick_begin initial = (initial, [])
   \<and> handleGenerateClick (Fulfilled (lit ''u'')) initial = (initial, [])"
proof -
  have h: "uploadedImages initial = []" by (simp add: initial_def)
  show ?thesis
    using h generate_without_images [OF h, of "Fulfilled (lit ''u'')"] by simp
qed

text \<open>
  Claim C1. With at least one image, \<^verbatim>\<open>handleGenerateClick\<close> first sets the result
  to \<^verbatim>\<open>{ status: 'pending' }\<close>, the view to generating and the loading flag, and
  calls the collaborator once, with the images and the composed prompt. When the call
  is fulfilled with a url the result is done with that url; when it is rejected the
  result is an error with the message of the \<^verbatim>\<open>Error\<close>, or with the text
  \<^verbatim>\<open>An unknown error occurred.\<close> when the reason is no \<^verbatim>\<open>Error\<close>. This holds on
  whatever state \<open>s'\<close> is current when the call settles, so also on the state the
  click left when nothing happened in between; either way the view is then
  results-shown, not generating, and the loading flag is off.
\<close>

theorem generate_with_images:
  assumes "uploadedImages s \<noteq> []"
  shows "handleGenerateClick_begin s =
           (s\<lparr>isLoading := True, appState := Generating,
              generatedImage := Some \<lparr>status = Pending, url = None, error = None\<rparr>\<rparr>,
            [GenerateImage (uploadedImages s) (createFinalPrompt s)])
       \<and> fst (handleGenerateClick_resume (Fulfilled resultUrl) s') =
           s'\<lparr>isLoading := False, appState := ResultsShown,
              generatedImage := Some \<lparr>status = Done, url = Some resultUrl, error = None\<rparr>\<rparr>
       \<and> fst (handleGenerateClick_resume (Rejected (ErrorInstance message)) s') =
           s'\<lparr>isLoading := False, appState := ResultsShown,
              generatedImage := Some \<lparr>status = Error, url = None, error = Some message\<rparr>\<rparr>
       \<and> fst (handleGenerateClick_resume (Rejected OtherValue) s') =
           s'\<lparr>isLoading := False, appState := ResultsShown,
              generatedImage := Some \<lparr>status = Error, url = None,
                                      error = Some (lit ''An unknown error occurred.'')\<rparr>\<rparr>
       \<and> fst (handleGenerateClick (Fulfilled resultUrl) s) =
           s\<lparr>isLoading := False, appState := ResultsShown,
             generatedImage := Some \<lparr>status = Done, url = Some resultUrl, error = None\<rparr>\<rparr>
       \<and> fst (handleGenerateClick (Rejected (ErrorInstance message)) s) =
           s\<lparr>isLoading := False, appState := ResultsShown,
             generatedImage := Some \<lparr>status = Error, url = None, error = Some message\<rparr>\<rparr>
       \<and> fst (handleGenerateClick (Rejected OtherValue) s) =
           s\<lparr>isLoading := False, appState := ResultsShown,
             generatedImage := Some \<lparr>status = Error, url = None,
                                     error = Some (lit ''An unknown error occurred.'')\<rparr>\<rparr>
       \<and> appState (fst (handleGenerateClick_resume outcome s')) = ResultsShown
       \<and> appState (fst (handleGenerateClick_resume outcome s')) \<noteq> Generating
       \<and> \<not> isLoading (fst (handleGenerateClick_resume outcome s'))
       \<and> (\<exists>g. generatedImage (fst (handleGenerateClick_resume outcome s')) = Some g
               \<and> status g \<noteq> Pending)"
proof -
  have resume: "appState (fst (handleGenerateClick_resume outcome s')) = ResultsShown
       \<and> appState (fst (handleGenerateClick_resume outcome s')) \<noteq> Generating
       \<and> \<not> isLoading (fst (handleGenerateClick_resume outcome s'))
       \<and> (\<exists>g. generatedImage (fst (handleGenerateClick_resume outcome s')) = Some g
               \<and> status g \<noteq> Pending)"
    by (cases outcome) simp_all
  show ?thesis
    using assms resume
    by (simp add: handleGenerateClick_begin_def handleGenerateClick_def pending_image_def
        unknown_error_def)
qed

theorem generate_with_images_witness:
  "uploadedImages (initial\<lparr>uploadedImages := [lit ''img''], appState := PhotosSelected\<rparr>) \<noteq> []
   \<and> fst (handleGenerateClick_begin
            (initial\<lparr>uploadedImages := [lit ''img''], appState := PhotosSelected\<rparr>)) =
       \<lparr>uploadedImages = [lit ''img''], userPrompt = [],
        generatedImage = Some \<lparr>status = Pending, url = None, error = None\<rparr>,
        isLoading = True, appState = Generating\<rparr>
   \<and> snd (handleGenerateClick_begin
            (initial\<lparr>uploadedImages := [lit ''img''], appState := PhotosSelected\<rparr>)) =
       [GenerateImage [lit ''img'']
          (createFinalPrompt (initial\<lparr>uploadedImages := [lit ''img''], appState := PhotosSelected\<rparr>))]
   \<and> fst (handleGenerateClick (Fulfilled (lit ''u''))
            (initial\<lparr>uploadedImages := [lit ''img''], appState := PhotosSelected\<rparr>)) =
       \<lparr>uploadedImages = [lit ''img''], userPrompt = [],
        generatedImage = Some \<lparr>status = Done, url = Some (lit ''u''), error = None\<rparr>,
        isLoading = False, appState = ResultsShown\<rparr>
   \<and> fst (handleGenerateClick (Rejected (ErrorInstance (lit ''quota'')))
            (initial\<lparr>uploadedImages := [lit ''img''], appState := PhotosSelected\<rparr>)) =
       \<lparr>uploadedImages = [lit ''img''], userPrompt = [],
        generatedImage = Some \<lparr>status = Error, url = None, error = Some (lit ''quota'')\<rparr>,
        isLoading = False, appState = ResultsShown\<rparr>
   \<and> fst (handleGenerateClick (Rejected OtherValue)
            (initial\<lparr>uploadedImages := [lit ''img''], appState := PhotosSelected\<rparr>)) =
       \<lparr>uploadedImages = [lit ''img''], userPrompt = [],
        generatedImage = Some \<lparr>status = Error, url = None,
                                error = Some (lit ''An unknown error occurred.'')\<rparr>,
        isLoading = False, appState = ResultsShown\<rparr>
   \<and> fst (handleGenerateClick_resume (Fulfilled (lit ''u''))
            \<lparr>uploadedImages = [lit ''img'', lit ''more''], userPrompt = lit ''x'',
             generatedImage = None, isLoading = True, appState = PhotosSelected\<rparr>) =
       \<lparr>uploadedImages = [lit ''img'', lit ''more''], userPrompt = lit ''x'',
        generatedImage = Some \<lparr>status = Done, url = Some (lit ''u''), error = None\<rparr>,
        isLoading = False, appState = ResultsShown\<rparr>"
  using generate_with_images [of "initial\<lparr>uploadedImages := [lit ''img''], appState := PhotosSelected\<rparr>"
      "lit ''u''"
      "\<lparr>uploadedImages = [lit ''img'', lit ''more''], userPrompt = lit ''x'',
        generatedImage = None, isLoading = True, appState = PhotosSelected\<rparr>"
      "lit ''quota''" "Fulfilled []"]
  by (simp add: initial_def)

section \<open>Uploading\<close>

lemma promise_all_Fulfilled:
  "promise_all (map Fulfilled vs) = Fulfilled vs"
  by (induction vs) simp_all

lemma promise_all_Rejected:
  "(\<exists>e. Rejected e \<in> set ps) \<Longrightarrow> \<exists>e. promise_all ps = Rejected e"
proof (induction ps)
  case Nil
  then show ?case by simp
next
  case (Cons p ps)
  show ?case
  proof (cases p)
    case (Fulfilled v)
    with Cons obtain e where "promise_all ps = Rejected e" by auto
    with Fulfilled show ?thesis by simp
  next
    case (Rejected e)
    then show ?thesis by simp
  qed
qed

lemma upload_no_file:
  "handleImageUpload None s = (s, []) \<and> handleImageUpload (Some []) s = (s, [])"
  by (simp add: handleImageUpload_def)

text \<open>
  Claim C3. For \<open>M\<close> images already there and a batch of \<open>N\<close> files that all
  decode, \<^verbatim>\<open>handleImageUpload\<close> gives \<open>M + N\<close> images: the \<open>M\<close> old ones in their
  places, then the \<open>N\<close> new ones in the order of the batch; the view is
  photos-selected and the result is cleared. A batch has at least one file: the
  handler is guarded by \<^verbatim>\<open>e.target.files.length > 0\<close>, and a change event without
  a file is no upload (the last conjunct: nothing changes then, in any state). The
  success callback does the same on whatever state \<open>s'\<close> is current when the batch
  settles.
\<close>

theorem upload_all_decoded:
  assumes "base64Images \<noteq> []"
  shows "handleImageUpload (Some (map Fulfilled base64Images)) s =
           (s\<lparr>uploadedImages := uploadedImages s @ base64Images,
              appState := PhotosSelected, generatedImage := None\<rparr>, [ClearInputValue])
       \<and> length (uploadedImages (fst (handleImageUpload (Some (map Fulfilled base64Images)) s)))
           = length (uploadedImages s) + length base64Images
       \<and> take (length (uploadedImages s))
            (uploadedImages (fst (handleImageUpload (Some (map Fulfilled base64Images)) s)))
           = uploadedImages s
       \<and> drop (length (uploadedImages s))
            (uploadedImages (fst (handleImageUpload (Some (map Fulfilled base64Images)) s)))
           = base64Images
       \<and> appState (fst (handleImageUpload (Some (map Fulfilled base64Images)) s)) = PhotosSelected
       \<and> generatedImage (fst (handleImageUpload (Some (map Fulfilled base64Images)) s)) = None
       \<and> fst (upload_settled (promise_all (map Fulfilled base64Images)) s') =
           s'\<lparr>uploadedImages := uploadedImages s' @ base64Images,
              appState := PhotosSelected, generatedImage := None\<rparr>
       \<and> handleImageUpload (Some []) s = (s, [])"
  using assms by (simp add: handleImageUpload_def promise_all_Fulfilled)

theorem upload_all_decoded_witness:
  "[lit ''b'', lit ''c''] \<noteq> []
   \<and> fst (handleImageUpload (Some (map Fulfilled [lit ''b'', lit ''c'']))
        \<lparr>uploadedImages = [lit ''a''], userPrompt = [],
         generatedImage = Some \<lparr>status = Done, url = Some (lit ''u''), error = None\<rparr>,
         isLoading = False, appState = PhotosSelected\<rparr>)
      = \<lparr>uploadedImages = [lit ''a'', lit ''b'', lit ''c''], userPrompt = [],
         generatedImage = None, isLoading = False, appState = PhotosSelected\<rparr>
   \<and> fst (handleImageUpload (Some (map Fulfilled [lit ''b'', lit ''c''])) initial)
      = \<lparr>uploadedImages = [lit ''b'', lit ''c''], userPrompt = [],
         generatedImage = None, isLoading = False, appState = PhotosSelected\<rparr>"
  using upload_all_decoded [of "[lit ''b'', lit ''c'']"
      "\<lparr>uploadedImages = [lit ''a''], userPrompt = [],
        generatedImage = Some \<lparr>status = Done, url = Some (lit ''u''), error = None\<rparr>,
        isLoading = False, appState = PhotosSelected\<rparr>" initial]
    upload_all_decoded [of "[lit ''b'', lit ''c'']" initial initial]
  by (simp add: initial_def)

text \<open>
  Claim C8. When a file of the batch fails to decode, \<^verbatim>\<open>handleImageUpload\<close> shows
  the alert and leaves the whole state as it was: no image of the batch is appended,
  and the list, the view and the result are the ones before. The same holds for the
  rejection callback on whatever state is current when the batch settles.
\<close>

theorem upload_one_failed:
  assumes "\<exists>e. Rejected e \<in> set fs"
  shows "fst (handleImageUpload (Some fs) s) = s
       \<and> Alert upload_alert \<in> set (snd (handleImageUpload (Some fs) s))
       \<and> fst (upload_settled (promise_all fs) s') = s'
       \<and> Alert upload_alert \<in> set (snd (upload_settled (promise_all fs) s'))"
proof -
  from assms obtain e where e: "promise_all fs = Rejected e"
    using promise_all_Rejected by blast
  from assms have "fs \<noteq> []" by auto
  with e show ?thesis
    by (simp add: handleImageUpload_def)
qed

theorem upload_one_failed_witness:
  "(\<exists>e. Rejected e \<in> set [Fulfilled (lit ''b''), Rejected OtherValue, Fulfilled (lit ''c'')])
   \<and> handleImageUpload (Some [Fulfilled (lit ''b''), Rejected OtherValue, Fulfilled (lit ''c'')])
        (initial\<lparr>uploadedImages := [lit ''a''], appState := PhotosSelected\<rparr>)
      = (initial\<lparr>uploadedImages := [lit ''a''], appState := PhotosSelected\<rparr>,
         [ClearInputValue, ConsoleError, Alert upload_alert])"
proof -
  have h: "\<exists>e. Rejected e \<in> set [Fulfilled (lit ''b''), Rejected OtherValue, Fulfilled (lit ''c'')]"
    by auto
  have "handleImageUpload (Some [Fulfilled (lit ''b''), Rejected OtherValue, Fulfilled (lit ''c'')])
        (initial\<lparr>uploadedImages := [lit ''a''], appState := PhotosSelected\<rparr>)
      = (initial\<lparr>uploadedImages := [lit ''a''], appState := PhotosSelected\<rparr>,
         [ClearInputValue, ConsoleError, Alert upload_alert])"
    using upload_one_failed [OF h, of "initial\<lparr>uploadedImages := [lit ''a''], appState := PhotosSelected\<rparr>" initial]
    by (simp add: handleImageUpload_def)
  with h show ?thesis by blast
qed

section \<open>The invariant\<close>

lemma upload_settled_keeps_view_has_images:
  "view_has_images s \<Longrightarrow> view_has_images (fst (upload_settled r s))"
  by (cases r) (simp_all add: view_has_images_def)

lemma handleRemoveImage_keeps_view_has_images:
  "view_has_images s \<Longrightarrow> view_has_images (handleRemoveImage i s)"
  by (auto simp: view_has_images_def handleRemoveImage_def Let_def)

lemma handleGenerateClick_begin_keeps_view_has_images:
  "view_has_images s \<Longrightarrow> view_has_images (fst (handleGenerateClick_begin s))"
  by (auto simp: view_has_images_def handleGenerateClick_begin_def)

lemma handleReset_view_has_images:
  "view_has_images (handleReset s)"
  by (simp add: view_has_images_def handleReset_def)

lemma handleGenerateClick_resume_view_has_images:
  "view_has_images (fst (handleGenerateClick_resume outcome s)) \<longleftrightarrow> uploadedImages s \<noteq> []"
  by (cases outcome) (simp_all add: view_has_images_def)

lemma fire_keeps_view_has_images:
  assumes "fire e y = Some y'" and "view_has_images (cells y)"
    and "\<And>outcome. e \<noteq> GenerateSettles outcome"
  shows "view_has_images (cells y')"
proof (cases e)
  case (UploadChange files)
  with assms(1,2) show ?thesis
    by (auto split: option.splits if_splits)
next
  case (UploadSettles k)
  with assms(1,2) show ?thesis
    by (auto split: if_splits simp: upload_settled_keeps_view_has_images)
next
  case (RemoveClick i)
  with assms(1,2) show ?thesis
    by (auto simp: handleRemoveImage_keeps_view_has_images)
next
  case (PromptChange v)
  with assms(1,2) show ?thesis
    by (auto simp: setUserPrompt_def view_has_images_def)
next
  case GenerateClick
  with assms(1) have "cells y' = fst (handleGenerateClick_begin (cells y))"
    by (auto split: prod.splits)
  with assms(2) show ?thesis
    by (simp add: handleGenerateClick_begin_keeps_view_has_images)
next
  case CardShake
  with assms(1) have "cells y' = fst (handleGenerateClick_begin (cells y))"
    by (auto split: prod.splits)
  with assms(2) show ?thesis
    by (simp add: handleGenerateClick_begin_keeps_view_has_images)
next
  case (GenerateSettles outcome)
  with assms(3) [of outcome] show ?thesis by simp
next
  case ResetClick
  with assms(1) show ?thesis
    by (auto simp: handleReset_view_has_images)
qed

text \<open>
  Claim C7. The invariant is kept by every handler except the continuation of
  \<^verbatim>\<open>handleGenerateClick\<close>, which sets the view to results-shown without looking at
  the images. A run through rendered controls only: a first photo is uploaded; a second
  batch is chosen and, while it is decoded, Generate is clicked; the batch settles,
  which brings the photos-selected view back with the call still in flight; Start Over
  empties the images; the call settles. The view is then results-shown with no image.
\<close>

theorem stale_generation_breaks_invariant:
  "run [UploadChange (Some [Fulfilled (lit ''a'')]), UploadSettles 0,
        UploadChange (Some [Fulfilled (lit ''b'')]), GenerateClick, UploadSettles 0,
        ResetClick, GenerateSettles (Fulfilled (lit ''u''))] boot
     = Some \<lparr>cells = \<lparr>uploadedImages = [], userPrompt = [],
                       generatedImage = Some \<lparr>status = Done, url = Some (lit ''u''), error = None\<rparr>,
                       isLoading = False, appState = ResultsShown\<rparr>,
             decoding = [], calls = 0\<rparr>
   \<and> \<not> view_has_images \<lparr>uploadedImages = [], userPrompt = [],
                       generatedImage = Some \<lparr>status = Done, url = Some (lit ''u''), error = None\<rparr>,
                       isLoading = False, appState = ResultsShown\<rparr>"
  by (simp add: step_def boot_def initial_def handleGenerateClick_begin_def handleReset_def
      view_has_images_def)

section \<open>The prompt composer\<close>

subsection \<open>Literals and white space\<close>

lemma unat_unit_of: "unat (unit_of c) = of_char c"
proof -
  have "(of_char c :: nat) < 2 ^ 16"
    by (rule less_trans [OF nat_of_char_less_256]) simp
  moreover have "unit_of c = of_nat (of_char c)"
    by (simp add: unit_of_def of_nat_of_char)
  ultimately show ?thesis by (simp add: unat_of_nat)
qed

lemma unit_of_eq_iff [simp]: "unit_of c = unit_of d \<longleftrightarrow> c = d"
  by (metis unat_unit_of of_char_eq_iff)

lemma unit_of_space: "unit_of CHR '' '' = 0x20"
  by (simp add: unit_of_def)

lemma is_ws_unit_of:
  "is_ws (unit_of c) \<longleftrightarrow>
     c = CHR 0x09 \<or> c = CHR 0x0A \<or> c = CHR 0x0B \<or> c = CHR 0x0C \<or> c = CHR 0x0D \<or>
     c = CHR 0x20 \<or> c = CHR 0xA0"
proof -
  have w: "unit_of c = w \<longleftrightarrow> of_char c = unat w" for w
    by (simp add: word_unat_eq_iff unat_unit_of)
  have le: "a \<le> unit_of c \<longleftrightarrow> unat a \<le> of_char c" "unit_of c \<le> a \<longleftrightarrow> of_char c \<le> unat a" for a
    by (simp_all add: word_le_nat_alt unat_unit_of)
  have c: "c = d \<longleftrightarrow> (of_char c :: nat) = of_char d" for d by simp
  define n :: nat where "n = of_char c"
  have lt: "n < 256" unfolding n_def by simp
  show ?thesis
    unfolding is_ws_def w le c n_def [symmetric] using lt by simp
qed

lemma lit_append: "lit (xs @ ys) = lit xs @ lit ys"
  by (simp add: lit_def)

lemma lit_Cons: "lit (c # cs) = unit_of c # lit cs"
  by (simp add: lit_def)

lemma lit_Nil: "lit [] = []"
  by (simp add: lit_def)

lemma unit_of_in_lit: "unit_of c \<in> set (lit cs) \<longleftrightarrow> c \<in> set cs"
  by (auto simp: lit_def)

lemma replace_ws_runs_other:
  "\<not> is_ws c \<Longrightarrow> replace_ws_runs (c # cs) = c # replace_ws_runs cs"
  by (cases cs) simp_all

lemma replace_ws_runs_lone:
  "is_ws c \<Longrightarrow> \<not> is_ws d \<Longrightarrow> replace_ws_runs (c # d # cs) = c # d # replace_ws_runs cs"
  by (simp add: replace_ws_runs_other)

lemma replace_ws_runs_run:
  "is_ws c \<Longrightarrow> is_ws d \<Longrightarrow>
     replace_ws_runs (c # d # cs) = 0x20 # replace_ws_runs (dropWhile is_ws cs)"
  by simp

lemma dropWhile_skip: "P x \<Longrightarrow> dropWhile P (x # xs) = dropWhile P xs"
  by simp

lemma dropWhile_stop: "\<not> P x \<Longrightarrow> dropWhile P (x # xs) = x # xs"
  by simp

lemma rules_collapsed:
  "replace_ws_runs rules = lit '' '' @ lit rules_text @ lit ''. ''"
  by (simp add: rules_def rules_text_def lit_def is_ws_unit_of unit_of_space [symmetric]
      replace_ws_runs_other replace_ws_runs_lone replace_ws_runs_run dropWhile_skip dropWhile_stop
      del: replace_ws_runs.simps(3) dropWhile.simps(2))

lemma has_ws_run_other: "\<not> is_ws c \<Longrightarrow> has_ws_run (c # cs) = has_ws_run cs"
  by (cases cs) simp_all

lemma replace_ws_runs_no_run: "\<not> has_ws_run (replace_ws_runs cs)"
proof (induction cs rule: replace_ws_runs.induct)
  case 1
  show ?case by simp
next
  case (2 c)
  show ?case by simp
next
  case (3 c d cs)
  show ?case
  proof (cases "is_ws c \<and> is_ws d")
    case True
    have "\<not> has_ws_run (0x20 # replace_ws_runs (dropWhile is_ws cs))"
    proof (cases "dropWhile is_ws cs")
      case Nil
      show ?thesis unfolding Nil by simp
    next
      case (Cons e es)
      then have "\<not> is_ws e"
        by (metis hd_dropWhile list.sel(1) list.distinct(1))
      then have "replace_ws_runs (e # es) = e # replace_ws_runs es"
        by (rule replace_ws_runs_other)
      moreover have "\<not> has_ws_run (replace_ws_runs (e # es))"
        using 3(1) [OF True] unfolding Cons .
      ultimately show ?thesis
        unfolding Cons using \<open>\<not> is_ws e\<close> by simp
    qed
    with True show ?thesis by simp
  next
    case False
    then have ih: "\<not> has_ws_run (replace_ws_runs (d # cs))"
      using 3(2) by simp
    show ?thesis
    proof (cases "is_ws c")
      case True
      with False have "\<not> is_ws d" by simp
      then have "replace_ws_runs (d # cs) = d # replace_ws_runs cs"
        by (rule replace_ws_runs_other)
      with ih False \<open>\<not> is_ws d\<close> show ?thesis by simp
    next
      case False
      with ih show ?thesis by (simp add: has_ws_run_other)
    qed
  qed
qed

lemma trim_keeps:
  assumes "xs \<noteq> []" and "\<not> is_ws (hd xs)" and "\<not> is_ws b" and "\<forall>w\<in>set ws. is_ws w"
  shows "trim (xs @ ys @ b # ws) = xs @ ys @ [b]"
proof -
  from assms(1,2) obtain a as where xs: "xs = a # as" and a: "\<not> is_ws a"
    by (cases xs) auto
  have front: "dropWhile is_ws (xs @ ys @ b # ws) = xs @ ys @ b # ws"
    using a by (simp add: xs)
  have "rev (xs @ ys @ b # ws) = rev ws @ b # rev (xs @ ys)"
    by simp
  moreover have "dropWhile is_ws (rev ws @ b # rev (xs @ ys)) = b # rev (xs @ ys)"
    using assms(3,4) by (simp add: dropWhile_append3)
  ultimately have "rev (dropWhile is_ws (rev (xs @ ys @ b # ws))) = xs @ ys @ [b]"
    by simp
  with front show ?thesis
    by (simp add: trim_def)
qed

lemma baseInstruction_head: "baseInstruction \<noteq> [] \<and> \<not> is_ws (hd baseInstruction)"
  by (simp add: baseInstruction_def lit_def is_ws_unit_of)

lemma createFinalPrompt_closed:
  "createFinalPrompt s =
     baseInstruction @ lit '' '' @ userScene s @ lit ''  '' @ lit rules_text @ lit ''.''"
proof -
  have "baseInstruction @ lit '' '' @ userScene s @ lit '' '' @ replace_ws_runs rules =
        baseInstruction @ (lit '' '' @ userScene s @ lit ''  '' @ lit rules_text) @ unit_of CHR ''.'' # [unit_of CHR '' '']"
    by (simp add: rules_collapsed lit_Cons lit_Nil)
  moreover have "trim \<dots> = baseInstruction @ (lit '' '' @ userScene s @ lit ''  '' @ lit rules_text) @ [unit_of CHR ''.'']"
    using baseInstruction_head by (intro trim_keeps) (simp_all add: is_ws_unit_of)
  ultimately show ?thesis
    by (simp add: createFinalPrompt_def lit_Cons lit_Nil)
qed


subsection \<open>Where the fallback clause can occur\<close>

lemma fallback_scene_parts:
  "fallback_scene = scene_label @ lit fallback_text @ lit ''.''"
  by (simp add: fallback_scene_def scene_label_def fallback_text_def lit_def)

lemma prefix_before_mark:
  assumes "vs @ m # zs = ks @ m # ss" and "m \<notin> set ks"
  shows "prefix ks vs"
proof -
  from assms(1) obtain ws where
    "(vs = ks @ ws \<and> ws @ m # zs = m # ss) \<or> (vs @ ws = ks \<and> m # zs = ws @ m # ss)"
    by (auto simp: append_eq_append_conv2)
  then show ?thesis
  proof (elim disjE conjE)
    assume "vs = ks @ ws"
    then show ?thesis by simp
  next
    assume ks: "vs @ ws = ks" and m: "m # zs = ws @ m # ss"
    show ?thesis
    proof (cases ws)
      case Nil
      with ks show ?thesis by simp
    next
      case (Cons w ws')
      with m have "w = m" by simp
      with Cons ks have "m \<in> set ks" by auto
      with assms(2) show ?thesis by simp
    qed
  qed
qed

lemma clause_occurrence:
  assumes occ: "sublist (l @ ks @ [m]) (p @ l @ t @ m # zs)"
    and label_last: "\<And>ps us. p @ l = ps @ l @ us \<Longrightarrow> us = []"
    and mark: "m \<notin> set ks"
    and rest: "\<not> sublist ks (m # zs)"
  shows "sublist ks t"
proof -
  from occ obtain ps ss where "p @ l @ t @ m # zs = ps @ (l @ ks @ [m]) @ ss"
    by (auto simp: sublist_def)
  then have "(p @ l) @ (t @ m # zs) = (ps @ l) @ (ks @ m # ss)"
    by simp
  then obtain us where
    "(p @ l = (ps @ l) @ us \<and> us @ t @ m # zs = ks @ m # ss) \<or>
     ((p @ l) @ us = ps @ l \<and> t @ m # zs = us @ ks @ m # ss)"
    unfolding append_eq_append_conv2 by blast
  then show ?thesis
  proof (elim disjE conjE)
    assume a: "p @ l = (ps @ l) @ us" and b: "us @ t @ m # zs = ks @ m # ss"
    from a have "us = []" using label_last [of ps us] by simp
    with b have "t @ m # zs = ks @ m # ss" by simp
    then have "prefix ks t" using mark by (rule prefix_before_mark)
    then show ?thesis by (rule prefix_imp_sublist)
  next
    assume "t @ m # zs = us @ ks @ m # ss"
    then obtain vs where
      "(t = us @ vs \<and> vs @ m # zs = ks @ m # ss) \<or> (t @ vs = us \<and> m # zs = vs @ ks @ m # ss)"
      unfolding append_eq_append_conv2 by blast
    then show ?thesis
    proof (elim disjE conjE)
      assume t: "t = us @ vs" and "vs @ m # zs = ks @ m # ss"
      then have "prefix ks vs" using mark by (intro prefix_before_mark)
      then obtain ws where "vs = ks @ ws" by (auto simp: prefix_def)
      with t show ?thesis by (auto simp: sublist_def)
    next
      assume "m # zs = vs @ ks @ m # ss"
      then have "sublist ks (m # zs)" by (auto simp: sublist_def)
      with rest show ?thesis by simp
    qed
  qed
qed

lemma scene_label_last:
  assumes "(baseInstruction @ lit '' '') @ scene_label = ps @ scene_label @ us"
  shows "us = []"
proof -
  let ?S = "unit_of CHR ''S''"
  have label: "scene_label = lit ''**'' @ ?S # lit ''cene Description:** ''"
    by (simp add: scene_label_def lit_def)
  have notin: "?S \<notin> set (baseInstruction @ lit '' '' @ lit ''**'')"
    "?S \<notin> set (lit ''cene Description:** '')"
    by (simp_all add: baseInstruction_def unit_of_in_lit)
  from assms have "(baseInstruction @ lit '' '' @ lit ''**'') @ ?S # lit ''cene Description:** ''
      = (ps @ lit ''**'') @ ?S # (lit ''cene Description:** '' @ us)"
    by (simp add: label)
  then have "lit ''cene Description:** '' = lit ''cene Description:** '' @ us"
    using append_Cons_eq_iff [OF notin] by blast
  then show ?thesis by simp
qed

lemma fallback_text_mark: "unit_of CHR ''.'' \<notin> set (lit fallback_text)"
  by (simp add: unit_of_in_lit fallback_text_def)

lemma fallback_text_not_in_rules:
  "\<not> sublist (lit fallback_text) (unit_of CHR ''.'' # lit ''  '' @ lit rules_text @ lit ''.'')"
proof
  assume "sublist (lit fallback_text) (unit_of CHR ''.'' # lit ''  '' @ lit rules_text @ lit ''.'')"
  then have "set (lit fallback_text)
      \<subseteq> set (unit_of CHR ''.'' # lit ''  '' @ lit rules_text @ lit ''.'')"
    by (rule set_mono_sublist)
  moreover have "unit_of CHR ''/'' \<in> set (lit fallback_text)"
    by (simp add: unit_of_in_lit fallback_text_def)
  moreover have "unit_of CHR ''/'' \<notin> set (unit_of CHR ''.'' # lit ''  '' @ lit rules_text @ lit ''.'')"
    by (simp add: unit_of_in_lit rules_text_def)
  ultimately show False by blast
qed

lemma fallback_needs_user_text:
  assumes "trim (userPrompt s) \<noteq> []"
    and "sublist fallback_scene (createFinalPrompt s)"
  shows "sublist (lit fallback_text) (trim (userPrompt s))"
proof -
  let ?t = "trim (userPrompt s)"
  let ?m = "unit_of CHR ''.''"
  have "createFinalPrompt s =
      (baseInstruction @ lit '' '') @ scene_label @ ?t @ ?m # (lit ''  '' @ lit rules_text @ lit ''.'')"
    using assms(1) by (simp add: createFinalPrompt_closed userScene_def lit_Cons lit_Nil)
  moreover have "fallback_scene = scene_label @ lit fallback_text @ [?m]"
    by (simp add: fallback_scene_parts lit_Cons lit_Nil)
  ultimately have "sublist (scene_label @ lit fallback_text @ [?m])
      ((baseInstruction @ lit '' '') @ scene_label @ ?t @ ?m # (lit ''  '' @ lit rules_text @ lit ''.''))"
    using assms(2) by simp
  then show ?thesis
    using scene_label_last fallback_text_mark fallback_text_not_in_rules
    by (rule clause_occurrence)
qed

subsection \<open>Composing twice\<close>

lemma trim_id:
  assumes "xs \<noteq> []" and "\<not> is_ws (hd xs)" and "\<not> is_ws (last xs)"
  shows "trim xs = xs"
proof -
  have "dropWhile is_ws xs = xs"
    using assms(2) by (simp add: dropWhile_eq_self_iff)
  moreover have "dropWhile is_ws (rev xs) = rev xs"
    using assms(1,3) by (simp add: dropWhile_eq_self_iff hd_rev)
  ultimately show ?thesis by (simp add: trim_def)
qed

lemma createFinalPrompt_ends:
  "createFinalPrompt s \<noteq> [] \<and> \<not> is_ws (hd (createFinalPrompt s))
   \<and> \<not> is_ws (last (createFinalPrompt s))"
  using baseInstruction_head
  by (simp add: createFinalPrompt_closed lit_Cons lit_Nil is_ws_unit_of)

lemma createFinalPrompt_again:
  "createFinalPrompt (s\<lparr>userPrompt := createFinalPrompt s\<rparr>) =
     baseInstruction @ lit '' '' @ scene_label @ createFinalPrompt s @ lit ''.  ''
       @ lit rules_text @ lit ''.''"
proof -
  have "trim (createFinalPrompt s) = createFinalPrompt s"
    using createFinalPrompt_ends by (intro trim_id) simp_all
  then show ?thesis
    using createFinalPrompt_ends [of s]
    by (simp add: createFinalPrompt_closed [of "s\<lparr>userPrompt := createFinalPrompt s\<rparr>"]
        userScene_def lit_Cons lit_Nil)
qed

lemma createFinalPrompt_again_longer:
  "length (createFinalPrompt s) < length (createFinalPrompt (s\<lparr>userPrompt := createFinalPrompt s\<rparr>))"
  by (simp add: createFinalPrompt_again lit_Cons)

text \<open>
  Claim C9, amended. \<^verbatim>\<open>createFinalPrompt\<close> is deterministic: it reads the prompt
  cell only, so two states with the same prompt give the same string. It is not
  idempotent: composing with a composed string as the prompt wraps that string in the
  template once more, which gives a longer string.
\<close>

theorem composer_reads_prompt_only:
  "(userPrompt s = userPrompt s' \<longrightarrow> createFinalPrompt s = createFinalPrompt s')
   \<and> createFinalPrompt (s\<lparr>userPrompt := createFinalPrompt s\<rparr>) =
       baseInstruction @ lit '' '' @ scene_label @ createFinalPrompt s @ lit ''.  ''
         @ lit rules_text @ lit ''.''
   \<and> length (createFinalPrompt s) < length (createFinalPrompt (s\<lparr>userPrompt := createFinalPrompt s\<rparr>))"
  using createFinalPrompt_again [of s] createFinalPrompt_again_longer [of s]
  by (simp add: createFinalPrompt_def userScene_def)

theorem composer_reads_prompt_only_witness:
  "userPrompt (initial\<lparr>userPrompt := lit ''on a beach at sunset''\<rparr>)
     = userPrompt (initial\<lparr>userPrompt := lit ''on a beach at sunset'', appState := PhotosSelected,
                           uploadedImages := [lit ''img'']\<rparr>)
   \<and> createFinalPrompt (initial\<lparr>userPrompt := lit ''on a beach at sunset''\<rparr>)
     = createFinalPrompt (initial\<lparr>userPrompt := lit ''on a beach at sunset'', appState := PhotosSelected,
                           uploadedImages := [lit ''img'']\<rparr>)"
  using composer_reads_prompt_only [of "initial\<lparr>userPrompt := lit ''on a beach at sunset''\<rparr>"
      "initial\<lparr>userPrompt := lit ''on a beach at sunset'', appState := PhotosSelected,
                           uploadedImages := [lit ''img'']\<rparr>"]
  by simp

text \<open>
  Claim C9 as stated fails: with the string composed for the empty prompt as the
  prompt, the composer returns another string.
\<close>

theorem composer_not_idempotent_counterexample:
  "createFinalPrompt (initial\<lparr>userPrompt := createFinalPrompt initial\<rparr>) \<noteq> createFinalPrompt initial"
  using createFinalPrompt_again_longer [of initial] by auto


subsection \<open>The scene clause\<close>

lemma only_occurrence:
  assumes "a \<notin> set ps" and "a \<notin> set ss" and "sublist (a # bs) (ps @ a # ss)"
  shows "prefix bs ss"
proof -
  from assms(3) obtain ps' ss' where "ps @ a # ss = ps' @ a # (bs @ ss')"
    by (auto simp: sublist_def)
  then have "ss = bs @ ss'"
    using append_Cons_eq_iff [OF assms(1,2)] by blast
  then show ?thesis by simp
qed

lemma trim_beach: "trim (lit ''on a beach at sunset'') = lit ''on a beach at sunset''"
  by (simp add: trim_def lit_def is_ws_unit_of)

lemma trim_trailing: "trim (lit ''at sunset! '') = lit ''at sunset!''"
  by (simp add: trim_def lit_def is_ws_unit_of)

lemma trim_fallback_text: "trim (lit fallback_text) = lit fallback_text"
  by (rule trim_id) (simp_all add: fallback_text_def lit_def is_ws_unit_of)

lemma trim_two_spaces: "trim (lit ''a  b'') = lit ''a  b''"
  by (simp add: trim_def lit_def is_ws_unit_of)

text \<open>
  Claim C5, amended. When the trimmed prompt is empty the composed string contains the
  fallback clause. When it is not, the composed string contains the trimmed prompt
  verbatim (the white space at the two ends of the prompt is dropped), and it does not
  contain the fallback clause unless the trimmed prompt itself contains the sentence
  of that clause.
\<close>

theorem scene_clause_of_prompt:
  "(trim (userPrompt s) = [] \<longrightarrow> sublist fallback_scene (createFinalPrompt s))
   \<and> (trim (userPrompt s) \<noteq> [] \<longrightarrow>
        sublist (trim (userPrompt s)) (createFinalPrompt s)
      \<and> (\<not> sublist (lit fallback_text) (trim (userPrompt s))
           \<longrightarrow> \<not> sublist fallback_scene (createFinalPrompt s)))"
proof (intro conjI impI)
  assume "trim (userPrompt s) = []"
  then have "createFinalPrompt s =
      (baseInstruction @ lit '' '') @ fallback_scene @ (lit ''  '' @ lit rules_text @ lit ''.'')"
    by (simp add: createFinalPrompt_closed userScene_def)
  then show "sublist fallback_scene (createFinalPrompt s)"
    by (simp only: sublist_appendI)
next
  assume "trim (userPrompt s) \<noteq> []"
  then have "createFinalPrompt s =
      (baseInstruction @ lit '' '' @ scene_label) @ trim (userPrompt s)
        @ (lit ''.  '' @ lit rules_text @ lit ''.'')"
    by (simp add: createFinalPrompt_closed userScene_def lit_Cons lit_Nil)
  then show "sublist (trim (userPrompt s)) (createFinalPrompt s)"
    by (simp only: sublist_appendI)
next
  assume "trim (userPrompt s) \<noteq> []"
    and "\<not> sublist (lit fallback_text) (trim (userPrompt s))"
  then show "\<not> sublist fallback_scene (createFinalPrompt s)"
    using fallback_needs_user_text by blast
qed

theorem scene_clause_of_prompt_witness:
  "trim (userPrompt initial) = []
   \<and> sublist fallback_scene (createFinalPrompt initial)
   \<and> trim (userPrompt (initial\<lparr>userPrompt := lit ''on a beach at sunset''\<rparr>)) \<noteq> []
   \<and> sublist (lit ''on a beach at sunset'')
        (createFinalPrompt (initial\<lparr>userPrompt := lit ''on a beach at sunset''\<rparr>))
   \<and> \<not> sublist (lit fallback_text) (lit ''on a beach at sunset'')
   \<and> \<not> sublist fallback_scene (createFinalPrompt (initial\<lparr>userPrompt := lit ''on a beach at sunset''\<rparr>))"
proof -
  have e: "trim (userPrompt initial) = []"
    by (simp add: initial_def trim_def)
  have t: "trim (userPrompt (initial\<lparr>userPrompt := lit ''on a beach at sunset''\<rparr>))
      = lit ''on a beach at sunset''"
    by (simp add: trim_beach)
  have n: "lit ''on a beach at sunset'' \<noteq> []"
    by (simp add: lit_def)
  have "length (lit ''on a beach at sunset'') < length (lit fallback_text)"
    by (simp add: lit_def fallback_text_def)
  then have f: "\<not> sublist (lit fallback_text) (lit ''on a beach at sunset'')"
    using sublist_length_le by fastforce
  show ?thesis
    using e n f scene_clause_of_prompt [of initial]
      scene_clause_of_prompt [of "initial\<lparr>userPrompt := lit ''on a beach at sunset''\<rparr>"]
    unfolding t by blast
qed

text \<open>
  Claim C5 as stated fails twice: for the prompt that is the sentence of the fallback
  clause, the composed string contains the fallback clause; for a prompt that ends
  with a space, the composed string does not contain the prompt as typed.
\<close>

theorem scene_clause_counterexample:
  "trim (userPrompt (initial\<lparr>userPrompt := lit fallback_text\<rparr>)) \<noteq> []
   \<and> sublist fallback_scene (createFinalPrompt (initial\<lparr>userPrompt := lit fallback_text\<rparr>))
   \<and> trim (userPrompt (initial\<lparr>userPrompt := lit ''at sunset! ''\<rparr>)) \<noteq> []
   \<and> \<not> sublist (userPrompt (initial\<lparr>userPrompt := lit ''at sunset! ''\<rparr>))
          (createFinalPrompt (initial\<lparr>userPrompt := lit ''at sunset! ''\<rparr>))"
proof (intro conjI)
  have t: "trim (userPrompt (initial\<lparr>userPrompt := lit fallback_text\<rparr>)) = lit fallback_text"
    by (simp add: trim_fallback_text)
  have n: "lit fallback_text \<noteq> []"
    by (simp add: lit_def fallback_text_def)
  from t n show "trim (userPrompt (initial\<lparr>userPrompt := lit fallback_text\<rparr>)) \<noteq> []"
    by simp
  have "createFinalPrompt (initial\<lparr>userPrompt := lit fallback_text\<rparr>) =
      (baseInstruction @ lit '' '') @ fallback_scene @ (lit ''  '' @ lit rules_text @ lit ''.'')"
    using n by (simp add: createFinalPrompt_closed userScene_def trim_fallback_text fallback_scene_parts)
  then show "sublist fallback_scene (createFinalPrompt (initial\<lparr>userPrompt := lit fallback_text\<rparr>))"
    by (simp only: sublist_appendI)
next
  have t: "trim (userPrompt (initial\<lparr>userPrompt := lit ''at sunset! ''\<rparr>)) = lit ''at sunset!''"
    by (simp add: trim_trailing)
  then show "trim (userPrompt (initial\<lparr>userPrompt := lit ''at sunset! ''\<rparr>)) \<noteq> []"
    by (simp add: lit_def)
  let ?a = "unit_of CHR ''!''"
  let ?ps = "baseInstruction @ lit '' '' @ scene_label @ lit ''at sunset''"
  let ?ss = "lit ''.  '' @ lit rules_text @ lit ''.''"
  have closed: "createFinalPrompt (initial\<lparr>userPrompt := lit ''at sunset! ''\<rparr>) = ?ps @ ?a # ?ss"
    by (simp add: createFinalPrompt_closed userScene_def trim_trailing) (simp add: lit_def)
  have a: "?a \<notin> set ?ps" "?a \<notin> set ?ss"
    by (simp_all add: unit_of_in_lit baseInstruction_def scene_label_def rules_text_def)
  show "\<not> sublist (userPrompt (initial\<lparr>userPrompt := lit ''at sunset! ''\<rparr>))
          (createFinalPrompt (initial\<lparr>userPrompt := lit ''at sunset! ''\<rparr>))"
  proof
    assume "sublist (userPrompt (initial\<lparr>userPrompt := lit ''at sunset! ''\<rparr>))
          (createFinalPrompt (initial\<lparr>userPrompt := lit ''at sunset! ''\<rparr>))"
    then have "sublist (lit ''at sunset'' @ (?a # [unit_of CHR '' '']) @ []) (?ps @ ?a # ?ss)"
      unfolding closed by (simp add: lit_def)
    moreover have "sublist (?a # [unit_of CHR '' ''])
        (lit ''at sunset'' @ (?a # [unit_of CHR '' '']) @ [])"
      by (rule sublist_appendI)
    ultimately have "sublist (?a # [unit_of CHR '' '']) (?ps @ ?a # ?ss)"
      using sublist_order.order.trans by blast
    with a have "prefix [unit_of CHR '' ''] ?ss"
      by (intro only_occurrence)
    then show False
      by (simp add: lit_Cons)
  qed
qed

subsection \<open>White space\<close>

lemma lit_spaces_only:
  assumes "list_all (\<lambda>c. c \<noteq> CHR 0x09 \<and> c \<noteq> CHR 0x0A \<and> c \<noteq> CHR 0x0B \<and> c \<noteq> CHR 0x0C
                        \<and> c \<noteq> CHR 0x0D \<and> c \<noteq> CHR 0xA0) cs"
  shows "\<forall>c\<in>set (lit cs). is_ws c \<longrightarrow> c = 0x20"
  using assms by (auto simp: lit_def list_all_iff is_ws_unit_of unit_of_space)

lemma rules_text_spaces_only:
  "list_all (\<lambda>c. c \<noteq> CHR 0x09 \<and> c \<noteq> CHR 0x0A \<and> c \<noteq> CHR 0x0B \<and> c \<noteq> CHR 0x0C
                        \<and> c \<noteq> CHR 0x0D \<and> c \<noteq> CHR 0xA0) rules_text"
  by (simp add: rules_text_def)

lemma rules_collapsed_spaces:
  "\<forall>c\<in>set (replace_ws_runs rules). is_ws c \<longrightarrow> c = 0x20"
proof -
  have "\<forall>c\<in>set (lit rules_text). is_ws c \<longrightarrow> c = 0x20"
    using rules_text_spaces_only by (rule lit_spaces_only)
  moreover have "\<forall>c\<in>set (lit '' '' @ lit ''. ''). is_ws c \<longrightarrow> c = 0x20"
    by (simp add: lit_def is_ws_unit_of) (simp add: unit_of_space)
  ultimately show ?thesis
    by (auto simp: rules_collapsed)
qed

lemma has_ws_run_changes: "has_ws_run cs \<Longrightarrow> replace_ws_runs cs \<noteq> cs"
  using replace_ws_runs_no_run [of cs] by auto

text \<open>
  Claim C2, amended. Before the concatenation, \<^verbatim>\<open>createFinalPrompt\<close> collapses the
  runs of two or more white-space units of the rules block only: the block goes into
  the result on one line with single spaces (its last space then trimmed off). The
  prompt is only trimmed at its two ends and goes into the scene clause with its inner
  white space as typed.
\<close>

theorem rules_block_collapsed:
  "createFinalPrompt s =
     baseInstruction @ lit '' '' @ userScene s @ lit '' '' @ butlast (replace_ws_runs rules)
   \<and> replace_ws_runs rules = lit '' '' @ lit rules_text @ lit ''. ''
   \<and> \<not> has_ws_run (replace_ws_runs rules)
   \<and> (\<forall>c\<in>set (replace_ws_runs rules). is_ws c \<longrightarrow> c = 0x20)
   \<and> (trim (userPrompt s) \<noteq> [] \<longrightarrow> userScene s = scene_label @ trim (userPrompt s) @ lit ''.'')"
proof -
  have "butlast (replace_ws_runs rules) = lit '' '' @ lit rules_text @ lit ''.''"
    by (simp add: rules_collapsed butlast_append lit_Cons lit_Nil)
  then have "createFinalPrompt s =
     baseInstruction @ lit '' '' @ userScene s @ lit '' '' @ butlast (replace_ws_runs rules)"
    by (simp add: createFinalPrompt_closed lit_Cons lit_Nil)
  moreover have "trim (userPrompt s) \<noteq> [] \<longrightarrow> userScene s = scene_label @ trim (userPrompt s) @ lit ''.''"
    by (simp add: userScene_def)
  ultimately show ?thesis
    using rules_collapsed replace_ws_runs_no_run [of rules] rules_collapsed_spaces by blast
qed

theorem rules_block_collapsed_witness:
  "trim (userPrompt (initial\<lparr>userPrompt := lit ''a  b''\<rparr>)) \<noteq> []
   \<and> userScene (initial\<lparr>userPrompt := lit ''a  b''\<rparr>) = scene_label @ lit ''a  b'' @ lit ''.''
   \<and> 0x20 \<in> set (replace_ws_runs rules) \<and> is_ws 0x20"
proof -
  have n: "lit ''a  b'' \<noteq> []" by (simp add: lit_def)
  have "replace_ws_runs rules = lit '' '' @ lit rules_text @ lit ''. ''"
    using rules_block_collapsed [of initial] by blast
  then have m: "0x20 \<in> set (replace_ws_runs rules)"
    by (simp add: lit_Cons unit_of_space)
  have w: "is_ws 0x20" by (simp add: is_ws_def)
  have "trim (userPrompt (initial\<lparr>userPrompt := lit ''a  b''\<rparr>)) \<noteq> [] \<longrightarrow>
      userScene (initial\<lparr>userPrompt := lit ''a  b''\<rparr>)
        = scene_label @ trim (userPrompt (initial\<lparr>userPrompt := lit ''a  b''\<rparr>)) @ lit ''.''"
    using rules_block_collapsed [of "initial\<lparr>userPrompt := lit ''a  b''\<rparr>"] by blast
  with n m w show ?thesis
    by (simp add: trim_two_spaces)
qed

text \<open>
  Claim C2 as stated fails for a prompt with two spaces in a row: they are still in
  the scene clause that is concatenated, and so in the composed string.
\<close>

theorem prompt_whitespace_counterexample:
  "userScene (initial\<lparr>userPrompt := lit ''a  b''\<rparr>) = lit ''**Scene Description:** a  b.''
   \<and> has_ws_run (userScene (initial\<lparr>userPrompt := lit ''a  b''\<rparr>))
   \<and> replace_ws_runs (userScene (initial\<lparr>userPrompt := lit ''a  b''\<rparr>))
        \<noteq> userScene (initial\<lparr>userPrompt := lit ''a  b''\<rparr>)
   \<and> sublist (userScene (initial\<lparr>userPrompt := lit ''a  b''\<rparr>))
        (createFinalPrompt (initial\<lparr>userPrompt := lit ''a  b''\<rparr>))"
proof -
  have scene: "userScene (initial\<lparr>userPrompt := lit ''a  b''\<rparr>) = lit ''**Scene Description:** a  b.''"
    by (simp add: userScene_def trim_two_spaces) (simp add: lit_def scene_label_def)
  have run: "has_ws_run (lit ''**Scene Description:** a  b.'')"
    by (simp add: lit_def is_ws_unit_of)
  have "createFinalPrompt (initial\<lparr>userPrompt := lit ''a  b''\<rparr>) =
      (baseInstruction @ lit '' '') @ userScene (initial\<lparr>userPrompt := lit ''a  b''\<rparr>)
        @ (lit ''  '' @ lit rules_text @ lit ''.'')"
    by (simp add: createFinalPrompt_closed)
  then have "sublist (userScene (initial\<lparr>userPrompt := lit ''a  b''\<rparr>))
        (createFinalPrompt (initial\<lparr>userPrompt := lit ''a  b''\<rparr>))"
    by (simp only: sublist_appendI)
  with scene run has_ws_run_changes [OF run] show ?thesis
    by simp
qed

end
